theory Spec2Isabelle
  imports Complex_Main "HOL-Library.Sublist"
begin

section \<open>Data model of \<open>src/App.tsx\<close>\<close>

text \<open>
  The component \<open>App\<close> keeps four pieces of React state: the fetched products, the raw
  search key, the debounced search key and the image loading map. A JavaScript string is
  a \<open>string\<close> here, read as the bytes of its UTF-8 encoding: for well-formed strings,
  one occurs in another as a run of code units exactly when its encoding occurs in the
  other's as a run of bytes, and two are equal exactly when their encodings are. A
  \<open>number\<close> is carried along unchanged and no property below computes with it.
\<close>

record Product =
  productId :: string
  productName :: string
  productPrice :: real
  productImage :: string

text \<open>
  \<open>type ImageLoadingState = { [key: string]: boolean | "error" }\<close>: a value of the map
  is a boolean or the string \<open>"error"\<close>; a key that is absent reads as \<open>undefined\<close>,
  which is \<open>None\<close> here.
\<close>

datatype ImageLoadingValue = Flag bool | ErrorTag

type_synonym ImageLoadingState = "string \<rightharpoonup> ImageLoadingValue"

section \<open>The product filter\<close>

text \<open>
  \<open>String.prototype.toLowerCase\<close> is a built-in of JavaScript and no code of the
  repository: the filter, and the rendering that uses it, take it as the parameter
  \<open>lower\<close>, and every theorem about them holds for every function in its place.

  On a string of ASCII characters the built-in replaces the letters \<open>A\<close> to \<open>Z\<close> by
  \<open>a\<close> to \<open>z\<close> and keeps every other character. \<open>asciiLower\<close> is that mapping; it
  stands in for the parameter in the examples, whose strings are all ASCII, and says
  nothing of what the built-in does to other strings.
\<close>

definition asciiLowerChar :: "char \<Rightarrow> char" where
  "asciiLowerChar c =
     (case map_of (zip ''ABCDEFGHIJKLMNOPQRSTUVWXYZ'' ''abcdefghijklmnopqrstuvwxyz'') c of
        None \<Rightarrow> c
      | Some l \<Rightarrow> l)"

definition asciiLower :: "string \<Rightarrow> string" where
  "asciiLower s = map asciiLowerChar s"

definition isAscii :: "string \<Rightarrow> bool" where
  "isAscii s = list_all (\<lambda>c. (of_char c :: nat) < 128) s"

text \<open>
  \<open>s.includes(t)\<close> (the name \<open>includes\<close> is reserved in Isabelle): the search
  string \<open>t\<close> is looked for at every position of \<open>s\<close>, from the first one on; the
  empty search string is found in every string.
\<close>

fun str_includes :: "string \<Rightarrow> string \<Rightarrow> bool" where
  "str_includes [] t = (t = [])"
| "str_includes (c # s) t = (prefix t (c # s) \<or> str_includes s t)"

text \<open>
  \<open>products.filter((product) =>
      product.productName.toLowerCase().includes(debouncedSearchKey.toLowerCase()))\<close>
\<close>

definition filteredProducts ::
    "(string \<Rightarrow> string) \<Rightarrow> Product list \<Rightarrow> string \<Rightarrow> Product list" where
  "filteredProducts lower ps debounced =
     filter (\<lambda>product. str_includes (lower (productName product)) (lower debounced)) ps"

section \<open>Rendering\<close>

text \<open>
  What the JSX of a card's \<open>image-container\<close> produces: the placeholder \<open>div\<close> (absent,
  or holding the text "Image not available", or holding the spinner) and the \<open>img\<close>
  element with its class name and whether its style is \<open>display: none\<close>.
\<close>

datatype Placeholder = PlaceholderText string | Spinner

record ImageContainer =
  placeholder :: "Placeholder option"
  imgSrc :: string
  imgAlt :: string
  imgClassName :: string
  imgDisplayNone :: bool

definition imageContainer :: "ImageLoadingState \<Rightarrow> Product \<Rightarrow> ImageContainer" where
  "imageContainer loading p =
     \<lparr> placeholder =
         (if loading (productId p) \<noteq> Some (Flag False)
          then Some (if loading (productId p) = Some ErrorTag
                     then PlaceholderText ''Image not available'' else Spinner)
          else None),
       imgSrc = productImage p,
       imgAlt = productName p @ '' Image'',
       imgClassName =
         ''product-image '' @ (if loading (productId p) = Some (Flag False)
                               then ''loaded'' else []),
       imgDisplayNone = (loading (productId p) \<noteq> Some (Flag False)) \<rparr>"

record Card =
  cardKey :: string
  cardImage :: ImageContainer
  cardName :: string
  cardPrice :: real

definition renderCard :: "ImageLoadingState \<Rightarrow> Product \<Rightarrow> Card" where
  "renderCard loading p =
     \<lparr> cardKey = productId p,
       cardImage = imageContainer loading p,
       cardName = productName p,
       cardPrice = productPrice p \<rparr>"

text \<open>
  The three statuses the specification speaks of, read off the map the way the JSX reads
  it: \<open>false\<close> is loaded, \<open>"error"\<close> is error, and every other reading (no entry, or
  \<open>true\<close>) is pending.
\<close>

datatype Status = Pending | Loaded | Failed

definition status :: "ImageLoadingState \<Rightarrow> string \<Rightarrow> Status" where
  "status loading pid =
     (case loading pid of
        None \<Rightarrow> Pending
      | Some (Flag True) \<Rightarrow> Pending
      | Some (Flag False) \<Rightarrow> Loaded
      | Some ErrorTag \<Rightarrow> Failed)"

text \<open>The three ways an image container can look.\<close>

definition pendingRender :: "ImageContainer \<Rightarrow> bool" where
  "pendingRender c = (placeholder c = Some Spinner \<and> imgDisplayNone c)"

definition errorRender :: "ImageContainer \<Rightarrow> bool" where
  "errorRender c =
     (placeholder c = Some (PlaceholderText ''Image not available'') \<and> imgDisplayNone c)"

definition loadedRender :: "ImageContainer \<Rightarrow> bool" where
  "loadedRender c = (placeholder c = None \<and> \<not> imgDisplayNone c)"

section \<open>The state of the component and the browser's timers\<close>

text \<open>
  A pending timeout of the browser: its handle, the milliseconds left until it fires, and
  the value of \<open>searchKey\<close> that its callback \<open>() => setDebouncedSearchKey(searchKey)\<close>
  has captured.
\<close>

type_synonym timeout = "nat \<times> nat \<times> string"

text \<open>What \<open>console.error("Failed to fetch products:", error)\<close> was given.\<close>

datatype FetchError = NetworkError | HttpError nat | BodyError

text \<open>
  The four \<open>useState\<close> cells, and what the component holds outside them: the browser's
  table of pending timeouts, the next handle \<open>setTimeout\<close> returns, the \<open>handler\<close> that
  the cleanup closure of the current debounce effect holds, whether the component is
  mounted, the number of calls of \<open>fetch\<close> made and settled, and the console's errors.

  The rules of React the model follows: a state setter given the current value changes
  nothing; an effect runs again only when one of its dependencies has changed, after
  the cleanup of its previous run; unmounting runs the cleanup. An effect is taken to
  run at the moment of the event that causes it.
\<close>

record AppState =
  products :: "Product list"
  searchKey :: string
  debouncedSearchKey :: string
  imageLoading :: ImageLoadingState
  timeouts :: "timeout list"
  nextHandle :: nat
  handler :: "nat option"
  mounted :: bool
  requestsSent :: nat
  requestsSettled :: nat
  consoleErrors :: "FetchError list"

definition setTimeout :: "string \<Rightarrow> nat \<Rightarrow> AppState \<Rightarrow> AppState" where
  "setTimeout captured delay s =
     s\<lparr> timeouts := timeouts s @ [(nextHandle s, delay, captured)],
        nextHandle := Suc (nextHandle s) \<rparr>"

definition clearTimeout :: "nat \<Rightarrow> AppState \<Rightarrow> AppState" where
  "clearTimeout h s = s\<lparr> timeouts := filter (\<lambda>(i, _, _). i \<noteq> h) (timeouts s) \<rparr>"

text \<open>
  \<open>useEffect(() => { const handler = setTimeout(..., 300);
      return () => clearTimeout(handler); }, [searchKey])\<close>:
  the body of the effect, and its cleanup.
\<close>

definition debounceEffect :: "AppState \<Rightarrow> AppState" where
  "debounceEffect s = (setTimeout (searchKey s) 300 s)\<lparr> handler := Some (nextHandle s) \<rparr>"

definition debounceCleanup :: "AppState \<Rightarrow> AppState" where
  "debounceCleanup s =
     (case handler s of
        None \<Rightarrow> s
      | Some h \<Rightarrow> (clearTimeout h s)\<lparr> handler := None \<rparr>)"

text \<open>
  \<open>setSearchKey\<close>: a value equal to the current one changes no state, so the effect,
  whose only dependency is \<open>searchKey\<close>, does not run again; a new value is stored, the
  cleanup of the previous effect runs, then the effect.
\<close>

definition setSearchKey :: "string \<Rightarrow> AppState \<Rightarrow> AppState" where
  "setSearchKey v s =
     (if v = searchKey s then s
      else debounceEffect (debounceCleanup (s\<lparr> searchKey := v \<rparr>)))"

definition handleSearchChange :: "string \<Rightarrow> AppState \<Rightarrow> AppState" where
  "handleSearchChange targetValue s = setSearchKey targetValue s"

definition setDebouncedSearchKey :: "string \<Rightarrow> AppState \<Rightarrow> AppState" where
  "setDebouncedSearchKey v s = s\<lparr> debouncedSearchKey := v \<rparr>"

definition handleImageLoad :: "string \<Rightarrow> AppState \<Rightarrow> AppState" where
  "handleImageLoad pid s = s\<lparr> imageLoading := (imageLoading s)(pid \<mapsto> Flag False) \<rparr>"

definition handleImageError :: "string \<Rightarrow> AppState \<Rightarrow> AppState" where
  "handleImageError pid s = s\<lparr> imageLoading := (imageLoading s)(pid \<mapsto> ErrorTag) \<rparr>"

text \<open>
  The outcome of \<open>await fetch(url)\<close> followed by \<open>await response.json()\<close>: the fetch is
  rejected, or there is a response with a status and, when its body parses, the
  \<open>products\<close> of the parsed body. \<open>response.ok\<close> is true for the statuses 200 to 299.
\<close>

datatype FetchOutcome = Rejected | Response nat "Product list option"

definition response_ok :: "nat \<Rightarrow> bool" where
  "response_ok st = (200 \<le> st \<and> st \<le> 299)"

definition consoleError :: "FetchError \<Rightarrow> AppState \<Rightarrow> AppState" where
  "consoleError e s = s\<lparr> consoleErrors := consoleErrors s @ [e] \<rparr>"

text \<open>The part of \<open>fetchProducts\<close> that runs once the request has settled.\<close>

definition fetchProducts :: "FetchOutcome \<Rightarrow> AppState \<Rightarrow> AppState" where
  "fetchProducts outcome s =
     (case outcome of
        Rejected \<Rightarrow> consoleError NetworkError s
      | Response st body \<Rightarrow>
          if \<not> response_ok st then consoleError (HttpError st) s
          else (case body of
                  None \<Rightarrow> consoleError BodyError s
                | Some ps \<Rightarrow> s\<lparr> products := ps \<rparr>))"

text \<open>The first effect, with no dependency: it calls \<open>fetch\<close> once.\<close>

definition fetchEffect :: "AppState \<Rightarrow> AppState" where
  "fetchEffect s = s\<lparr> requestsSent := Suc (requestsSent s) \<rparr>"

text \<open>The initial values of the state cells, and the state after the first commit.\<close>

definition initial :: AppState where
  "initial =
     \<lparr> products = [], searchKey = [], debouncedSearchKey = [],
       imageLoading = Map.empty, timeouts = [], nextHandle = 1, handler = None,
       mounted = True, requestsSent = 0, requestsSettled = 0, consoleErrors = [] \<rparr>"

definition mount :: AppState where
  "mount = debounceEffect (fetchEffect initial)"

text \<open>
  Time passes: the timeouts whose delay has run out fire, in the order they were set (all
  are set with the same delay), and are gone from the table; the others have less time
  left. A timeout is taken to fire as soon as its delay has run out.
\<close>

definition due :: "nat \<Rightarrow> AppState \<Rightarrow> timeout list" where
  "due d s = filter (\<lambda>(_, left, _). left \<le> d) (timeouts s)"

definition waiting :: "nat \<Rightarrow> AppState \<Rightarrow> timeout list" where
  "waiting d s =
     map (\<lambda>(i, left, v). (i, left - d, v))
       (filter (\<lambda>(_, left, _). \<not> left \<le> d) (timeouts s))"

definition elapse :: "nat \<Rightarrow> AppState \<Rightarrow> AppState" where
  "elapse d s =
     foldl (\<lambda>s' (_, _, v). setDebouncedSearchKey v s')
       (s\<lparr> timeouts := waiting d s \<rparr>) (due d s)"

text \<open>
  What can happen to the component. The events of the DOM reach their handlers only
  while the component is mounted; a request settles only while one is in flight;
  unmounting runs the cleanup of the debounce effect.
\<close>

datatype Event =
    Change string
  | Elapse nat
  | ImageLoad string
  | ImageError string
  | FetchSettled FetchOutcome
  | Unmount

fun step :: "AppState \<Rightarrow> Event \<Rightarrow> AppState" where
  "step s (Change v) = (if mounted s then handleSearchChange v s else s)"
| "step s (Elapse d) = elapse d s"
| "step s (ImageLoad pid) = (if mounted s then handleImageLoad pid s else s)"
| "step s (ImageError pid) = (if mounted s then handleImageError pid s else s)"
| "step s (FetchSettled outcome) =
     (if requestsSettled s < requestsSent s
      then (fetchProducts outcome s)\<lparr> requestsSettled := Suc (requestsSettled s) \<rparr>
      else s)"
| "step s Unmount = (if mounted s then (debounceCleanup s)\<lparr> mounted := False \<rparr> else s)"

fun run :: "AppState \<Rightarrow> Event list \<Rightarrow> AppState" where
  "run s [] = s"
| "run s (e # es) = run (step s e) es"

text \<open>The values handed to \<open>setDebouncedSearchKey\<close> by an event, and over a run.\<close>

fun emitted :: "AppState \<Rightarrow> Event \<Rightarrow> string list" where
  "emitted s (Elapse d) = map (\<lambda>(_, _, v). v) (due d s)"
| "emitted s _ = []"

fun emissions :: "AppState \<Rightarrow> Event list \<Rightarrow> string list" where
  "emissions s [] = []"
| "emissions s (e # es) = emitted s e @ emissions (step s e) es"

text \<open>What the component renders.\<close>

record View =
  heading :: string
  inputValue :: string
  cards :: "Card list"

definition render :: "(string \<Rightarrow> string) \<Rightarrow> AppState \<Rightarrow> View" where
  "render lower s =
     \<lparr> heading = ''Products List'',
       inputValue = searchKey s,
       cards = map (renderCard (imageLoading s))
                 (filteredProducts lower (products s) (debouncedSearchKey s)) \<rparr>"

section \<open>Notions the properties are stated with\<close>

text \<open>
  Exactly one of the three looks of an image container.
\<close>

definition exactlyOneRender :: "ImageContainer \<Rightarrow> bool" where
  "exactlyOneRender c =
     ((pendingRender c \<and> \<not> errorRender c \<and> \<not> loadedRender c)
    \<or> (errorRender c \<and> \<not> pendingRender c \<and> \<not> loadedRender c)
    \<or> (loadedRender c \<and> \<not> pendingRender c \<and> \<not> errorRender c))"

text \<open>
  The value an event writes for the product id \<open>x\<close>, if it is a load or error signal for
  \<open>x\<close>, and the value the last such signal of a sequence of events writes.
\<close>

fun signalOf :: "string \<Rightarrow> Event \<Rightarrow> ImageLoadingValue option" where
  "signalOf x (ImageLoad y) = (if y = x then Some (Flag False) else None)"
| "signalOf x (ImageError y) = (if y = x then Some ErrorTag else None)"
| "signalOf x _ = None"

fun lastSignal :: "string \<Rightarrow> Event list \<Rightarrow> ImageLoadingValue option" where
  "lastSignal x [] = None"
| "lastSignal x (e # es) =
     (case lastSignal x es of None \<Rightarrow> signalOf x e | Some v \<Rightarrow> Some v)"


text \<open>
  A quiet period: the raw query \<open>k\<close> does not change during the events, whatever else
  happens. Its length is the time that passes during the events.
\<close>

fun still :: "string \<Rightarrow> Event list \<Rightarrow> bool" where
  "still k [] = True"
| "still k (Change v # es) = (v = k \<and> still k es)"
| "still k (_ # es) = still k es"

fun elapsed :: "Event list \<Rightarrow> nat" where
  "elapsed [] = 0"
| "elapsed (Elapse d # es) = d + elapsed es"
| "elapsed (_ # es) = elapsed es"


text \<open>
  The outcomes on which \<open>fetchProducts\<close> reaches its \<open>catch\<close> block (the fetch is rejected,
  the response is not ok, or reading the body fails), and what is logged then.
\<close>

definition failedOutcome :: "FetchOutcome \<Rightarrow> bool" where
  "failedOutcome outcome =
     (case outcome of
        Rejected \<Rightarrow> True
      | Response st body \<Rightarrow> \<not> response_ok st \<or> body = None)"

definition loggedError :: "FetchOutcome \<Rightarrow> FetchError" where
  "loggedError outcome =
     (case outcome of
        Rejected \<Rightarrow> NetworkError
      | Response st body \<Rightarrow> if \<not> response_ok st then HttpError st else BodyError)"

fun isSettle :: "Event \<Rightarrow> bool" where
  "isSettle (FetchSettled _) = True"
| "isSettle _ = False"

text \<open>
  The invariant of the debounce effect: while the component is mounted, either no timeout
  is pending and the debounced key is the raw key, or exactly one timeout is pending, it
  is the one the cleanup closure holds, it has captured the raw key and has between 1
  and 300 milliseconds left; after the component is unmounted no timeout is pending.
\<close>

definition single_timer :: "AppState \<Rightarrow> bool" where
  "single_timer s =
     (if mounted s
      then (timeouts s = [] \<and> debouncedSearchKey s = searchKey s)
         \<or> (\<exists>h left. timeouts s = [(h, left, searchKey s)] \<and> handler s = Some h
               \<and> 0 < left \<and> left \<le> 300)
      else timeouts s = [])"

text \<open>The two products of the specification's scenarios.\<close>

definition redShoe :: Product where
  "redShoe =
     \<lparr> productId = ''1'', productName = ''Red Shoe'', productPrice = 10,
       productImage = ''a'' \<rparr>"

definition blueHat :: Product where
  "blueHat =
     \<lparr> productId = ''2'', productName = ''Blue Hat'', productPrice = 5,
       productImage = ''b'' \<rparr>"

section \<open>Properties of the product filter\<close>

lemma includes_iff_sublist: "str_includes s t \<longleftrightarrow> sublist t s"
  by (induction s) (simp_all add: sublist_Cons_right)

lemma includes_Nil: "str_includes s []"
  by (simp add: includes_iff_sublist)

text \<open>The empty query, when lowering keeps it empty, keeps every product.\<close>

lemma filteredProducts_empty_query: "lower [] = [] \<Longrightarrow> filteredProducts lower ps [] = ps"
  by (simp add: filteredProducts_def includes_Nil)

text \<open>
  On ASCII names and queries the filter is the one with \<open>asciiLower\<close>, for every lowering
  that does to ASCII strings what the built-in does.
\<close>

lemma filteredProducts_ascii:
  assumes "\<And>s. isAscii s \<Longrightarrow> lower s = asciiLower s"
    and "isAscii q" and "\<And>p. p \<in> set ps \<Longrightarrow> isAscii (productName p)"
  shows "filteredProducts lower ps q = filteredProducts asciiLower ps q"
  unfolding filteredProducts_def using assms by (intro filter_cong) simp_all

text \<open>The specification's scenario: the query \<open>red\<close> keeps the red shoe only.\<close>

lemma filteredProducts_scenario:
  "filteredProducts asciiLower [redShoe, blueHat] ''red'' = [redShoe]"
  by (simp add: filteredProducts_def asciiLower_def asciiLowerChar_def redShoe_def
      blueHat_def)

text \<open>
  Claim C1. For every product list and every debounced query, whatever the built-in
  lowering does: the filtered list holds exactly the products whose lowercased name
  contains the lowercased query as a contiguous substring, in the order of the input
  list (it is the input list filtered by that predicate, hence a subsequence of it, and
  a product is in it if and only if it is in the input and matches). The match ignores
  case: two queries with the same lowercase form select the same products, and two
  products whose names have the same lowercase form are selected by the same queries.
\<close>

theorem filteredProducts_exact:
  "filteredProducts lower ps q =
     filter (\<lambda>p. sublist (lower q) (lower (productName p))) ps
   \<and> subseq (filteredProducts lower ps q) ps
   \<and> set (filteredProducts lower ps q) =
       {p. p \<in> set ps \<and> sublist (lower q) (lower (productName p))}
   \<and> (lower q' = lower q \<longrightarrow> filteredProducts lower ps q' = filteredProducts lower ps q)
   \<and> (lower (productName p') = lower (productName p)
        \<longrightarrow> (p' \<in> set (filteredProducts lower (p' # ps) q))
          = (p \<in> set (filteredProducts lower (p # ps) q)))"
  by (auto simp add: filteredProducts_def includes_iff_sublist)

text \<open>
  An instance on ASCII text: the queries \<open>RED\<close> and \<open>red\<close> have the same lowercase form
  and both select the red shoe, whose name holds \<open>Red\<close>; a product named \<open>RED SHOE\<close>
  is selected as the red shoe is.
\<close>

theorem filteredProducts_exact_witness:
  "asciiLower ''RED'' = asciiLower ''red''
   \<and> asciiLower (productName (redShoe\<lparr> productName := ''RED SHOE'' \<rparr>))
       = asciiLower (productName redShoe)
   \<and> filteredProducts asciiLower [redShoe, blueHat] ''RED''
       = filteredProducts asciiLower [redShoe, blueHat] ''red''
   \<and> filteredProducts asciiLower [redShoe, blueHat] ''red'' = [redShoe]
   \<and> redShoe\<lparr> productName := ''RED SHOE'' \<rparr>
        \<in> set (filteredProducts asciiLower
                 [redShoe\<lparr> productName := ''RED SHOE'' \<rparr>, blueHat] ''red'')"
proof -
  have q: "asciiLower ''RED'' = asciiLower ''red''"
    by (simp add: asciiLower_def asciiLowerChar_def)
  have n: "asciiLower (productName (redShoe\<lparr> productName := ''RED SHOE'' \<rparr>))
      = asciiLower (productName redShoe)"
    by (simp add: asciiLower_def asciiLowerChar_def redShoe_def)
  have r: "filteredProducts asciiLower [redShoe, blueHat] ''red'' = [redShoe]"
    by (simp add: filteredProducts_def asciiLower_def asciiLowerChar_def redShoe_def
        blueHat_def)
  then have m: "redShoe \<in> set (filteredProducts asciiLower [redShoe, blueHat] ''red'')"
    by simp
  note c = filteredProducts_exact [of asciiLower "[redShoe, blueHat]" "''red''" "''RED''"
      "redShoe\<lparr> productName := ''RED SHOE'' \<rparr>" redShoe]
  from c q have e: "filteredProducts asciiLower [redShoe, blueHat] ''RED''
      = filteredProducts asciiLower [redShoe, blueHat] ''red''" by blast
  from filteredProducts_exact [of asciiLower "[blueHat]" "''red''" "''red''"
      "redShoe\<lparr> productName := ''RED SHOE'' \<rparr>" redShoe] n m
  have "redShoe\<lparr> productName := ''RED SHOE'' \<rparr>
        \<in> set (filteredProducts asciiLower
                 [redShoe\<lparr> productName := ''RED SHOE'' \<rparr>, blueHat] ''red'')"
    by blast
  with q n e r show ?thesis by blast
qed

section \<open>Facts about single events\<close>

lemmas ops_defs = setTimeout_def clearTimeout_def debounceEffect_def debounceCleanup_def
  setSearchKey_def handleSearchChange_def setDebouncedSearchKey_def handleImageLoad_def
  handleImageError_def consoleError_def fetchProducts_def fetchEffect_def

lemmas eval_defs = mount_def initial_def ops_defs elapse_def due_def waiting_def
  response_ok_def

lemma run_append: "run s (es @ fs) = run (run s es) fs"
  by (induction es arbitrary: s) simp_all


text \<open>Time passing, when at most one timeout is pending.\<close>

lemma elapse_no_timer: "timeouts s = [] \<Longrightarrow> elapse d s = s"
  by (cases s) (simp add: elapse_def due_def waiting_def)

lemma elapse_fires:
  "timeouts s = [(h, left, v)] \<Longrightarrow> left \<le> d \<Longrightarrow>
   elapse d s = s\<lparr> debouncedSearchKey := v, timeouts := [] \<rparr>"
  by (cases s) (simp add: elapse_def due_def waiting_def setDebouncedSearchKey_def)

lemma elapse_waits:
  "timeouts s = [(h, left, v)] \<Longrightarrow> \<not> left \<le> d \<Longrightarrow>
   elapse d s = s\<lparr> timeouts := [(h, left - d, v)] \<rparr>"
  by (cases s) (simp add: elapse_def due_def waiting_def setDebouncedSearchKey_def)

text \<open>Firing timeouts touches the debounced key only.\<close>

lemma fire_frame:
  fixes ts :: "timeout list"
  shows "mounted (foldl (\<lambda>s' (_, _, v). setDebouncedSearchKey v s') s0 ts) = mounted s0
       \<and> imageLoading (foldl (\<lambda>s' (_, _, v). setDebouncedSearchKey v s') s0 ts)
           = imageLoading s0
       \<and> products (foldl (\<lambda>s' (_, _, v). setDebouncedSearchKey v s') s0 ts) = products s0
       \<and> searchKey (foldl (\<lambda>s' (_, _, v). setDebouncedSearchKey v s') s0 ts) = searchKey s0
       \<and> consoleErrors (foldl (\<lambda>s' (_, _, v). setDebouncedSearchKey v s') s0 ts)
           = consoleErrors s0
       \<and> requestsSent (foldl (\<lambda>s' (_, _, v). setDebouncedSearchKey v s') s0 ts)
           = requestsSent s0
       \<and> requestsSettled (foldl (\<lambda>s' (_, _, v). setDebouncedSearchKey v s') s0 ts)
           = requestsSettled s0"
  by (induction ts arbitrary: s0) (simp_all add: setDebouncedSearchKey_def split: prod.splits)

lemma elapse_frame:
  "mounted (elapse d s) = mounted s \<and> imageLoading (elapse d s) = imageLoading s
   \<and> products (elapse d s) = products s \<and> searchKey (elapse d s) = searchKey s
   \<and> consoleErrors (elapse d s) = consoleErrors s
   \<and> requestsSent (elapse d s) = requestsSent s
   \<and> requestsSettled (elapse d s) = requestsSettled s"
  by (simp add: elapse_def fire_frame)

text \<open>
  The emissions of an event are what it writes to the debounced key: the key is left as
  it was when nothing is emitted, and is the last value emitted otherwise.
\<close>

lemma fire_last:
  fixes ts :: "timeout list"
  shows "debouncedSearchKey (foldl (\<lambda>s' (_, _, v). setDebouncedSearchKey v s') s0 ts)
       = (if ts = [] then debouncedSearchKey s0 else last (map (\<lambda>(_, _, v). v) ts))"
  by (induction ts arbitrary: s0)
    (auto simp add: setDebouncedSearchKey_def split: prod.splits)

lemma emitted_sound:
  "debouncedSearchKey (step s e)
     = (if emitted s e = [] then debouncedSearchKey s else last (emitted s e))"
proof (cases e)
  case (Elapse d)
  then show ?thesis by (simp add: elapse_def fire_last)
qed (simp_all add: ops_defs split: option.splits FetchOutcome.splits)

text \<open>Only unmounting ends being mounted, and nothing mounts the component again.\<close>

lemma mounted_step: "mounted (step s e) = (mounted s \<and> e \<noteq> Unmount)"
  by (cases e) (simp_all add: elapse_frame ops_defs split: option.splits FetchOutcome.splits)

lemma mounted_step_back: "mounted (step s e) \<Longrightarrow> mounted s"
  by (simp add: mounted_step)

lemma mounted_run_back: "mounted (run s es) \<Longrightarrow> mounted s"
  by (induction es arbitrary: s) (auto dest: mounted_step_back simp del: step.simps)

text \<open>An image signal or a settled request leaves the debounce machinery alone.\<close>

lemma other_event_frame:
  assumes "e = ImageLoad x \<or> e = ImageError x \<or> e = FetchSettled out"
  shows "mounted (step s e) = mounted s \<and> timeouts (step s e) = timeouts s
       \<and> handler (step s e) = handler s \<and> searchKey (step s e) = searchKey s
       \<and> debouncedSearchKey (step s e) = debouncedSearchKey s \<and> emitted s e = []"
  using assms
  by (auto simp add: ops_defs split: option.splits FetchOutcome.splits if_splits)

section \<open>The invariant of the debounce effect\<close>

lemma single_timer_mount: "single_timer mount"
  by (simp add: single_timer_def mount_def initial_def ops_defs)

lemma single_timer_Change: "single_timer s \<Longrightarrow> single_timer (step s (Change v))"
  by (auto simp add: single_timer_def ops_defs split: option.splits)

lemma single_timer_Elapse:
  assumes inv: "single_timer s"
  shows "single_timer (step s (Elapse d))"
proof (cases "timeouts s = []")
  case True
  with inv show ?thesis by (simp add: elapse_no_timer)
next
  case False
  with inv obtain h left where t: "timeouts s = [(h, left, searchKey s)]"
    and m: "mounted s" and hd: "handler s = Some h" and le: "left \<le> 300" "0 < left"
    by (auto simp add: single_timer_def split: if_splits)
  show ?thesis
  proof (cases "left \<le> d")
    case True
    with t m show ?thesis by (simp add: elapse_fires single_timer_def)
  next
    case False
    with t m hd le show ?thesis by (simp add: elapse_waits single_timer_def)
  qed
qed

lemma single_timer_step:
  assumes "single_timer s"
  shows "single_timer (step s e)"
proof (cases e)
  case (Change v)
  with assms show ?thesis by (simp only: single_timer_Change)
next
  case (Elapse d)
  with assms show ?thesis by (simp only: single_timer_Elapse)
qed (use assms in
    \<open>auto simp add: single_timer_def ops_defs split: option.splits FetchOutcome.splits\<close>)

lemma single_timer_run: "single_timer s \<Longrightarrow> single_timer (run s es)"
  by (induction es arbitrary: s) (simp_all add: single_timer_step del: step.simps)

lemma single_timer_length: "single_timer s \<Longrightarrow> length (timeouts s) \<le> 1"
  by (auto simp add: single_timer_def split: if_splits)

section \<open>The search debouncer\<close>

text \<open>With no timeout pending and no change of the raw query, nothing is emitted.\<close>

lemma still_Cons: "still k (e # es) \<longleftrightarrow> still k [e] \<and> still k es"
  by (cases e) simp_all

lemma no_timer_step:
  assumes "timeouts s = []" "still (searchKey s) [e]"
  shows "timeouts (step s e) = [] \<and> emitted s e = []
       \<and> debouncedSearchKey (step s e) = debouncedSearchKey s
       \<and> searchKey (step s e) = searchKey s"
proof (cases e)
  case (Elapse d)
  with assms show ?thesis by (simp add: elapse_no_timer due_def)
qed (use assms in \<open>auto simp add: ops_defs split: option.splits FetchOutcome.splits\<close>)

lemma no_timer_run:
  "timeouts s = [] \<Longrightarrow> still (searchKey s) es \<Longrightarrow>
   emissions s es = [] \<and> debouncedSearchKey (run s es) = debouncedSearchKey s
   \<and> searchKey (run s es) = searchKey s"
proof (induction es arbitrary: s)
  case Nil
  then show ?case by simp
next
  case (Cons e es)
  from Cons.prems have e: "still (searchKey s) [e]" and es: "still (searchKey s) es"
    using still_Cons by blast+
  note st = no_timer_step [OF Cons.prems(1) e]
  from st es have "still (searchKey (step s e)) es" by simp
  with st Cons.IH [of "step s e"] show ?case by simp
qed

lemma no_timer_stays:
  "timeouts s = [] \<Longrightarrow> still (searchKey s) es \<Longrightarrow> timeouts (run s es) = []"
proof (induction es arbitrary: s)
  case Nil
  then show ?case by simp
next
  case (Cons e es)
  from Cons.prems have e: "still (searchKey s) [e]" and es: "still (searchKey s) es"
    using still_Cons by blast+
  note st = no_timer_step [OF Cons.prems(1) e]
  from st es have "still (searchKey (step s e)) es" by simp
  with st Cons.IH [of "step s e"] show ?case by simp
qed


text \<open>
  During a quiet period in which the component stays mounted, the one pending timeout
  fires as soon as the time that has passed reaches what it had left, whatever other
  events come in between, and nothing is emitted after that.
\<close>

lemma quiet_fires:
  "mounted s \<Longrightarrow> timeouts s = [(h, left, searchKey s)] \<Longrightarrow> handler s = Some h \<Longrightarrow>
   0 < left \<Longrightarrow> still (searchKey s) es \<Longrightarrow> Unmount \<notin> set es \<Longrightarrow> left \<le> elapsed es \<Longrightarrow>
   emissions s es = [searchKey s] \<and> debouncedSearchKey (run s es) = searchKey s
   \<and> searchKey (run s es) = searchKey s \<and> timeouts (run s es) = []"
proof (induction es arbitrary: s left)
  case Nil
  then show ?case by simp
next
  case (Cons e es)
  from Cons.prems(5) have e1: "still (searchKey s) [e]" and es: "still (searchKey s) es"
    using still_Cons by blast+
  show ?case
  proof (cases e)
    case (Change v)
    with e1 have "v = searchKey s" by simp
    with Change Cons.prems have "step s e = s" by (simp add: ops_defs)
    with Cons.IH [of s left] Cons.prems es Change show ?thesis by simp
  next
    case (Elapse d)
    show ?thesis
    proof (cases "left \<le> d")
      case True
      from elapse_fires [OF Cons.prems(2) True]
      have st: "step s e = s\<lparr> debouncedSearchKey := searchKey s, timeouts := [] \<rparr>"
        using Elapse by simp
      have em: "emitted s e = [searchKey s]"
        using Elapse True Cons.prems(2) by (simp add: due_def)
      from st es have q: "timeouts (step s e) = []" "still (searchKey (step s e)) es"
        by simp_all
      from no_timer_run [OF q] no_timer_stays [OF q] st em show ?thesis by simp
    next
      case False
      from elapse_waits [OF Cons.prems(2) False]
      have st: "step s e = s\<lparr> timeouts := [(h, left - d, searchKey s)] \<rparr>"
        using Elapse by simp
      have em: "emitted s e = []"
        using Elapse False Cons.prems(2) by (simp add: due_def)
      from st Cons.prems es False Elapse Cons.IH [of "step s e" "left - d"] em
      show ?thesis by simp
    qed
  next
    case (ImageLoad x)
    then have "e = ImageLoad x \<or> e = ImageError x \<or> e = FetchSettled Rejected" by simp
    from other_event_frame [OF this, of s] Cons.prems es Cons.IH [of "step s e" left]
      ImageLoad
    show ?thesis by simp
  next
    case (ImageError x)
    then have "e = ImageLoad x \<or> e = ImageError x \<or> e = FetchSettled Rejected" by simp
    from other_event_frame [OF this, of s] Cons.prems es Cons.IH [of "step s e" left]
      ImageError
    show ?thesis by simp
  next
    case (FetchSettled out)
    then have "e = ImageLoad [] \<or> e = ImageError [] \<or> e = FetchSettled out" by simp
    from other_event_frame [OF this, of s] Cons.prems es Cons.IH [of "step s e" left]
      FetchSettled
    show ?thesis by simp
  next
    case Unmount
    with Cons.prems show ?thesis by simp
  qed
qed

text \<open>
  From every reachable state in which the component is mounted: once 300 ms have passed
  without a change of the raw query, the debounced query is the raw query, and the
  quiet period has seen at most one update.
\<close>

lemma quiet_converges:
  assumes m: "mounted (run mount pre)"
    and quiet: "still (searchKey (run mount pre)) quiet" "Unmount \<notin> set quiet"
      "300 \<le> elapsed quiet"
  shows "debouncedSearchKey (run mount (pre @ quiet)) = searchKey (run mount pre)
       \<and> length (emissions (run mount pre) quiet) \<le> 1"
proof -
  define s where "s = run mount pre"
  have inv: "single_timer s"
    unfolding s_def by (rule single_timer_run [OF single_timer_mount])
  show ?thesis
  proof (cases "timeouts s = []")
    case True
    with inv m have "debouncedSearchKey s = searchKey s"
      by (simp add: single_timer_def s_def)
    with no_timer_run [OF True, of quiet] quiet(1) show ?thesis
      by (simp add: run_append s_def)
  next
    case False
    with inv m obtain h left where t: "timeouts s = [(h, left, searchKey s)]"
      "handler s = Some h" "0 < left" "left \<le> 300"
      by (auto simp add: single_timer_def s_def)
    from t(4) quiet(3) have "left \<le> elapsed quiet" by simp
    from quiet_fires [OF _ t(1) t(2) t(3) _ quiet(2) this] m quiet(1)
    show ?thesis by (simp add: run_append s_def)
  qed
qed




text \<open>
  The quiet period may be cut at any point: 299 ms and then 1 ms more give the update,
  299 ms alone do not.
\<close>

lemma debounce_boundary:
  "emissions mount [Change ''red'', Elapse 299] = []
   \<and> emissions mount [Change ''red'', Elapse 299, Elapse 1] = [''red'']"
  by (simp add: eval_defs)

text \<open>An event leaves the debounced key as it is or sets it to the raw key.\<close>

lemma debounced_step:
  assumes "single_timer s"
  shows "debouncedSearchKey (step s e) = debouncedSearchKey s
       \<or> debouncedSearchKey (step s e) = searchKey s"
proof (cases e)
  case (Elapse d)
  show ?thesis
  proof (cases "timeouts s = []")
    case True
    with Elapse show ?thesis by (simp add: elapse_no_timer)
  next
    case False
    with assms obtain h left where t: "timeouts s = [(h, left, searchKey s)]"
      by (auto simp add: single_timer_def split: if_splits)
    show ?thesis
    proof (cases "left \<le> d")
      case True
      with t Elapse show ?thesis by (simp add: elapse_fires)
    next
      case False
      with t Elapse show ?thesis by (simp add: elapse_waits)
    qed
  qed
qed (auto simp add: ops_defs split: option.splits FetchOutcome.splits)

text \<open>
  Claim C6. In every reachable state the debounced query is a value the raw query held
  in the initial state or in a state the component passed through on the way: it is
  never a string that was not typed.
\<close>

theorem debounced_was_typed:
  "\<exists>i\<le>length es. debouncedSearchKey (run mount es) = searchKey (run mount (take i es))"
proof (induction es rule: rev_induct)
  case Nil
  show ?case by (simp add: mount_def initial_def ops_defs)
next
  case (snoc e es)
  then obtain i where i: "i \<le> length es"
    "debouncedSearchKey (run mount es) = searchKey (run mount (take i es))" by blast
  have inv: "single_timer (run mount es)" by (rule single_timer_run [OF single_timer_mount])
  from debounced_step [OF inv, of e] show ?case
  proof
    assume "debouncedSearchKey (step (run mount es) e) = debouncedSearchKey (run mount es)"
    with i have "i \<le> length (es @ [e]) \<and>
      debouncedSearchKey (run mount (es @ [e])) = searchKey (run mount (take i (es @ [e])))"
      by (simp add: run_append)
    then show ?thesis by blast
  next
    assume "debouncedSearchKey (step (run mount es) e) = searchKey (run mount es)"
    then have "length es \<le> length (es @ [e]) \<and>
      debouncedSearchKey (run mount (es @ [e]))
        = searchKey (run mount (take (length es) (es @ [e])))"
      by (simp add: run_append)
    then show ?thesis by blast
  qed
qed

text \<open>Once unmounted with no timeout pending, the component emits nothing more.\<close>

lemma unmounted_step:
  assumes "\<not> mounted s" "timeouts s = []"
  shows "\<not> mounted (step s e) \<and> timeouts (step s e) = [] \<and> emitted s e = []
       \<and> debouncedSearchKey (step s e) = debouncedSearchKey s"
proof (cases e)
  case (Elapse d)
  with assms show ?thesis by (simp add: elapse_no_timer due_def)
qed (use assms in \<open>auto simp add: ops_defs split: option.splits FetchOutcome.splits\<close>)

lemma unmounted_run:
  "\<not> mounted s \<Longrightarrow> timeouts s = [] \<Longrightarrow>
   emissions s es = [] \<and> debouncedSearchKey (run s es) = debouncedSearchKey s"
proof (induction es arbitrary: s)
  case Nil
  then show ?case by simp
next
  case (Cons e es)
  note st = unmounted_step [OF Cons.prems, of e]
  with Cons.IH [of "step s e"] show ?case by simp
qed

lemma unmount_clears:
  assumes "single_timer s"
  shows "\<not> mounted (step s Unmount) \<and> timeouts (step s Unmount) = []
       \<and> debouncedSearchKey (step s Unmount) = debouncedSearchKey s"
  using assms by (auto simp add: single_timer_def ops_defs split: if_splits option.splits)

text \<open>
  Claim C7. Whatever happened before the component is torn down (in particular when a
  keystroke has re-scheduled the emission and its 300 ms have not elapsed), tearing it
  down leaves no timeout pending, nothing is handed to \<open>setDebouncedSearchKey\<close> by any
  later event, and the debounced query keeps the value it had at teardown. At no time is
  more than one emission pending, so re-scheduling has cancelled the earlier one.
\<close>

theorem unmount_cancels:
  "timeouts (run mount (pre @ [Unmount])) = []
   \<and> emissions (run mount (pre @ [Unmount])) post = []
   \<and> debouncedSearchKey (run mount (pre @ Unmount # post))
       = debouncedSearchKey (run mount pre)
   \<and> length (timeouts (run mount pre)) \<le> 1"
proof -
  have inv: "single_timer (run mount pre)"
    by (rule single_timer_run [OF single_timer_mount])
  note u = unmount_clears [OF inv]
  from u unmounted_run [of "step (run mount pre) Unmount" post]
  have "emissions (step (run mount pre) Unmount) post = []"
    "debouncedSearchKey (run (step (run mount pre) Unmount) post)
       = debouncedSearchKey (run mount pre)"
    by simp_all
  with u single_timer_length [OF inv] show ?thesis by (simp add: run_append)
qed

text \<open>
  An instance: the user types \<open>r\<close>, the component is torn down 100 ms later, and a
  second passes; the timeout that was pending never fires.
\<close>

lemma unmount_cancels_scenario:
  "timeouts (run mount [Change ''r'', Elapse 100]) = [(2, 200, ''r'')]
   \<and> emissions mount [Change ''r'', Elapse 100, Unmount, Elapse 1000] = []
   \<and> debouncedSearchKey (run mount [Change ''r'', Elapse 100, Unmount, Elapse 1000]) = []"
  by (simp add: eval_defs)

section \<open>The image status tracker\<close>

lemma imageLoading_step:
  "imageLoading (step s e) x =
     (if mounted s
      then (case signalOf x e of None \<Rightarrow> imageLoading s x | Some v \<Rightarrow> Some v)
      else imageLoading s x)"
  by (cases e)
    (auto simp add: elapse_frame ops_defs split: option.splits FetchOutcome.splits)

lemma imageLoading_run:
  "mounted (run s es) \<Longrightarrow>
   imageLoading (run s es) x =
     (case lastSignal x es of None \<Rightarrow> imageLoading s x | Some v \<Rightarrow> Some v)"
proof (induction es arbitrary: s)
  case Nil
  then show ?case by simp
next
  case (Cons e es)
  from Cons.prems have m': "mounted (run (step s e) es)" by simp
  then have "mounted (step s e)" by (rule mounted_run_back)
  then have m: "mounted s" by (rule mounted_step_back)
  from Cons.IH [OF m'] m show ?case
    by (simp add: imageLoading_step del: step.simps split: option.splits)
qed

lemma status_step:
  "status (imageLoading (step s e)) x = status (imageLoading s) x
   \<or> status (imageLoading (step s e)) x = Loaded
   \<or> status (imageLoading (step s e)) x = Failed"
  by (cases e)
    (auto simp add: imageLoading_step status_def simp del: step.simps split: option.splits)

lemma status_never_back_step:
  "status (imageLoading s) x \<noteq> Pending \<Longrightarrow> status (imageLoading (step s e)) x \<noteq> Pending"
  using status_step [of s e x] by auto

lemma status_never_back_run:
  "status (imageLoading s) x \<noteq> Pending \<Longrightarrow> status (imageLoading (run s es)) x \<noteq> Pending"
  by (induction es arbitrary: s) (simp_all add: status_never_back_step del: step.simps)

lemma render_by_status:
  "pendingRender (imageContainer m p) = (status m (productId p) = Pending)
   \<and> errorRender (imageContainer m p) = (status m (productId p) = Failed)
   \<and> loadedRender (imageContainer m p) = (status m (productId p) = Loaded)"
  by (auto simp add: pendingRender_def errorRender_def loadedRender_def imageContainer_def
      status_def split: option.splits ImageLoadingValue.splits bool.splits)

lemma exactly_one: "exactlyOneRender (imageContainer m p)"
  unfolding exactlyOneRender_def render_by_status [THEN conjunct1]
    render_by_status [THEN conjunct2, THEN conjunct1]
    render_by_status [THEN conjunct2, THEN conjunct2]
  by (cases "status m (productId p)") simp_all

text \<open>
  Claim C3, as amended. For every product id and every sequence of events: an event
  leaves the status of the id as it is or makes it loaded or error (so loaded may become
  error and error may become loaded, the later signal deciding); a status that is not
  pending never becomes pending again; and at every moment exactly one of the pending,
  error and loaded renders is shown for the id.
\<close>

theorem status_no_return_to_pending:
  "(status (imageLoading (step s e)) x = status (imageLoading s) x
    \<or> status (imageLoading (step s e)) x = Loaded
    \<or> status (imageLoading (step s e)) x = Failed)
   \<and> (status (imageLoading s) x \<noteq> Pending
        \<longrightarrow> status (imageLoading (run s es)) x \<noteq> Pending)
   \<and> exactlyOneRender (imageContainer (imageLoading (run s es)) p)"
  using status_step status_never_back_run exactly_one by blast

theorem status_no_return_to_pending_witness:
  "status (imageLoading (run mount [ImageLoad ''1''])) ''1'' \<noteq> Pending
   \<and> status (imageLoading (run (run mount [ImageLoad ''1'']) [ImageError ''1'', Elapse 5]))
        ''1'' \<noteq> Pending"
proof -
  have h: "status (imageLoading (run mount [ImageLoad ''1''])) ''1'' \<noteq> Pending"
    by (simp add: eval_defs status_def)
  from status_no_return_to_pending
    [of "run mount [ImageLoad ''1'']" "Elapse 0" "''1''" "[ImageError ''1'', Elapse 5]" redShoe] h
  show ?thesis by blast
qed

text \<open>
  Claim C3 as stated fails. The products are fetched and the image of product \<open>1\<close>
  loads; the query \<open>hat\<close> takes the card out of the list and the empty query puts it
  back (the lemma after the theorem), so a new \<open>img\<close> element loads the image again; this
  time loading fails. The status of product \<open>1\<close> goes from loaded to error, which is
  neither of the two transitions the claim allows.
\<close>

theorem status_only_from_pending_counterexample:
  "status (imageLoading (run mount
      [FetchSettled (Response 200 (Some [redShoe])), ImageLoad ''1''])) ''1'' = Loaded
   \<and> status (imageLoading (run mount
      [FetchSettled (Response 200 (Some [redShoe])), ImageLoad ''1'',
       Change ''hat'', Elapse 300, Change [], Elapse 300, ImageError ''1'']))
      ''1'' = Failed"
  by (simp add: eval_defs status_def)

lemma card_removed_and_put_back:
  "map cardKey (cards (render asciiLower (run mount
      [FetchSettled (Response 200 (Some [redShoe])), ImageLoad ''1'',
       Change ''hat'', Elapse 300]))) = []
   \<and> map cardKey (cards (render asciiLower (run mount
      [FetchSettled (Response 200 (Some [redShoe])), ImageLoad ''1'',
       Change ''hat'', Elapse 300, Change [], Elapse 300]))) = [''1'']"
  by (simp add: eval_defs render_def renderCard_def filteredProducts_def
      asciiLower_def asciiLowerChar_def redShoe_def)

text \<open>
  Claim C4. A loaded signal for a product id stores \<open>false\<close> (loaded) for it and an error
  signal stores \<open>"error"\<close>; an error signal after a loaded signal leaves \<open>"error"\<close>, a
  loaded signal after an error signal leaves \<open>false\<close>; and over any sequence of events
  during which the component stays mounted, the entry of the id is what the last signal
  for that id wrote, or the entry it had before when there was none.
\<close>

theorem last_writer_wins:
  assumes "mounted (run s es)"
  shows "imageLoading (handleImageLoad x s) x = Some (Flag False)
       \<and> imageLoading (handleImageError x s) x = Some ErrorTag
       \<and> imageLoading (handleImageError x (handleImageLoad x s)) x = Some ErrorTag
       \<and> imageLoading (handleImageLoad x (handleImageError x s)) x = Some (Flag False)
       \<and> imageLoading (run s es) x =
           (case lastSignal x es of None \<Rightarrow> imageLoading s x | Some v \<Rightarrow> Some v)"
  using imageLoading_run [OF assms] by (simp add: ops_defs)

theorem last_writer_wins_witness:
  "mounted (run mount [ImageLoad ''2'', ImageLoad ''1'', ImageError ''2''])
   \<and> imageLoading (run mount [ImageLoad ''2'', ImageLoad ''1'', ImageError ''2'']) ''2''
       = Some ErrorTag"
proof -
  have m: "mounted (run mount [ImageLoad ''2'', ImageLoad ''1'', ImageError ''2''])"
    by (simp add: eval_defs)
  from last_writer_wins [OF m, of "''2''"] m show ?thesis by simp
qed

text \<open>
  Claim C5. The image container of a card is a function of the status of the card's
  product id: pending (no entry in the map, or the entry \<open>true\<close>) shows the spinner
  placeholder and hides the image, error shows the text "Image not available" and hides
  the image, loaded shows no placeholder and shows the image.
\<close>

theorem card_by_status:
  "(status m (productId p) = Pending)
     = (m (productId p) = None \<or> m (productId p) = Some (Flag True))
   \<and> imageContainer m p =
       \<lparr> placeholder =
           (case status m (productId p) of
              Pending \<Rightarrow> Some Spinner
            | Failed \<Rightarrow> Some (PlaceholderText ''Image not available'')
            | Loaded \<Rightarrow> None),
         imgSrc = productImage p,
         imgAlt = productName p @ '' Image'',
         imgClassName =
           ''product-image '' @ (if status m (productId p) = Loaded then ''loaded'' else []),
         imgDisplayNone = (status m (productId p) \<noteq> Loaded) \<rparr>
   \<and> cardImage (renderCard m p) = imageContainer m p"
  by (simp add: status_def imageContainer_def renderCard_def
      split: option.splits ImageLoadingValue.splits bool.splits)

text \<open>
  The specification's scenario: the image of product \<open>2\<close> fires its error event; the
  card of product \<open>2\<close> shows "Image not available" and its image is hidden.
\<close>

lemma image_error_scenario:
  "imageLoading (run mount [FetchSettled (Response 200 (Some [redShoe, blueHat])),
      ImageError ''2'']) ''2'' = Some ErrorTag
   \<and> map (\<lambda>c. (cardKey c, placeholder (cardImage c), imgDisplayNone (cardImage c)))
       (cards (render asciiLower
          (run mount [FetchSettled (Response 200 (Some [redShoe, blueHat])),
          ImageError ''2''])))
     = [(''1'', Some Spinner, True),
        (''2'', Some (PlaceholderText ''Image not available''), True)]"
  by (simp add: eval_defs render_def renderCard_def imageContainer_def filteredProducts_def
      asciiLower_def redShoe_def blueHat_def)

text \<open>
  Claim C9. Handling a load or error signal for the product id \<open>x\<close> leaves the entry of
  every other id, and the rest of the component's state, as it was; and no event ever
  removes an entry from the image status map.
\<close>

theorem image_signal_frame:
  assumes "y \<noteq> x"
  shows "imageLoading (handleImageLoad x s) y = imageLoading s y
       \<and> imageLoading (handleImageError x s) y = imageLoading s y
       \<and> handleImageLoad x s = s\<lparr> imageLoading := imageLoading (handleImageLoad x s) \<rparr>
       \<and> handleImageError x s = s\<lparr> imageLoading := imageLoading (handleImageError x s) \<rparr>
       \<and> dom (imageLoading s) \<subseteq> dom (imageLoading (run s es))"
proof -
  have st: "dom (imageLoading s') \<subseteq> dom (imageLoading (step s' e))" for s' e
    by (cases e)
      (auto simp add: elapse_frame ops_defs split: option.splits FetchOutcome.splits)
  have "dom (imageLoading s) \<subseteq> dom (imageLoading (run s es))"
  proof (induction es arbitrary: s)
    case Nil
    show ?case by simp
  next
    case (Cons e es)
    from st [of s e] Cons.IH [of "step s e"] show ?case by auto
  qed
  with assms show ?thesis by (auto simp add: ops_defs)
qed

theorem image_signal_frame_witness:
  "''2'' \<noteq> ''1''
   \<and> imageLoading (run mount [ImageLoad ''2'']) ''2'' = Some (Flag False)
   \<and> imageLoading (handleImageError ''1'' (run mount [ImageLoad ''2''])) ''2''
       = Some (Flag False)"
proof -
  have n: "''2'' \<noteq> ''1''" by simp
  have b: "imageLoading (run mount [ImageLoad ''2'']) ''2'' = Some (Flag False)"
    by (simp add: eval_defs)
  from image_signal_frame [OF n, of "run mount [ImageLoad ''2'']" "[]"] n b
  show ?thesis by (simp only: simp_thms)
qed

lemma no_true_step:
  "imageLoading s x \<noteq> Some (Flag True) \<Longrightarrow> imageLoading (step s e) x \<noteq> Some (Flag True)"
  by (cases e) (auto simp add: imageLoading_step simp del: step.simps split: if_splits)

lemma no_true_run:
  "imageLoading s x \<noteq> Some (Flag True) \<Longrightarrow> imageLoading (run s es) x \<noteq> Some (Flag True)"
  by (induction es arbitrary: s) (simp_all add: no_true_step del: step.simps)

text \<open>
  Claim C10. No operation of the component stores \<open>true\<close> in the image status map: in
  every reachable state an entry is \<open>false\<close> (loaded) or \<open>"error"\<close>, so an id is pending
  exactly when it has no entry.
\<close>

theorem never_stores_true:
  "imageLoading (run mount es) x \<noteq> Some (Flag True)
   \<and> imageLoading (run mount es) x \<in> {None, Some (Flag False), Some ErrorTag}
   \<and> (status (imageLoading (run mount es)) x = Pending)
       = (imageLoading (run mount es) x = None)"
proof -
  have "imageLoading mount x \<noteq> Some (Flag True)"
    by (simp add: mount_def initial_def ops_defs)
  then have "imageLoading (run mount es) x \<noteq> Some (Flag True)"
    by (rule no_true_run)
  then show ?thesis
    by (auto simp add: status_def split: option.splits ImageLoadingValue.splits bool.splits)
qed

section \<open>The product fetch\<close>

lemma fetchProducts_failed:
  assumes "failedOutcome out"
  shows "fetchProducts out s = consoleError (loggedError out) s"
  using assms
  by (auto simp add: failedOutcome_def loggedError_def fetchProducts_def
      split: FetchOutcome.splits option.splits)

text \<open>A response that is ok and whose body parses replaces the product list.\<close>

lemma fetchProducts_ok:
  "response_ok st \<Longrightarrow> fetchProducts (Response st (Some ps)) s = s\<lparr> products := ps \<rparr>"
  by (simp add: fetchProducts_def)

text \<open>No event calls \<open>fetch\<close>.\<close>

lemma requestsSent_step: "requestsSent (step s e) = requestsSent s"
  by (cases e) (simp_all add: elapse_frame ops_defs split: option.splits FetchOutcome.splits)

lemma requestsSent_run: "requestsSent (run s es) = requestsSent s"
  by (induction es arbitrary: s) (simp_all add: requestsSent_step del: step.simps)

lemma no_settle_step:
  assumes "\<not> isSettle e"
  shows "products (step s e) = products s \<and> consoleErrors (step s e) = consoleErrors s
       \<and> requestsSettled (step s e) = requestsSettled s"
  using assms
  by (cases e) (simp_all add: elapse_frame ops_defs split: option.splits)

lemma no_settle_run:
  "list_all (\<lambda>e. \<not> isSettle e) es \<Longrightarrow>
   products (run s es) = products s \<and> consoleErrors (run s es) = consoleErrors s
   \<and> requestsSettled (run s es) = requestsSettled s"
  by (induction es arbitrary: s) (simp_all add: no_settle_step del: step.simps)

lemma all_settled_step:
  assumes "requestsSettled s = requestsSent s"
  shows "products (step s e) = products s \<and> consoleErrors (step s e) = consoleErrors s
       \<and> requestsSettled (step s e) = requestsSent (step s e)"
  using assms
  by (cases e) (simp_all add: elapse_frame ops_defs split: option.splits)

lemma all_settled_run:
  "requestsSettled s = requestsSent s \<Longrightarrow>
   products (run s es) = products s \<and> consoleErrors (run s es) = consoleErrors s"
proof (induction es arbitrary: s)
  case Nil
  then show ?case by simp
next
  case (Cons e es)
  note st = all_settled_step [OF Cons.prems, of e]
  with Cons.IH [of "step s e"] show ?case by simp
qed

lemma failed_settle_step:
  assumes "failedOutcome out" "requestsSettled s < requestsSent s"
  shows "step s (FetchSettled out)
       = s\<lparr> consoleErrors := consoleErrors s @ [loggedError out],
            requestsSettled := Suc (requestsSettled s) \<rparr>"
  using assms by (simp add: fetchProducts_failed consoleError_def)

lemma render_frame:
  "render lower (s\<lparr> consoleErrors := c, requestsSettled := n \<rparr>) = render lower s"
  by (simp add: render_def)

text \<open>
  Claim C8. When the request of the initial fetch settles with a failure (the fetch is
  rejected, the response is not 2xx, or reading its body throws), then whatever other
  events come before and after: the failure is logged, once; the product list is still
  empty; \<open>fetch\<close> has been called once only; the component renders no card; and the
  failure changes nothing of what is rendered, so no error message is shown.
\<close>

theorem fetch_failure:
  assumes f: "failedOutcome out"
    and pre: "list_all (\<lambda>e. \<not> isSettle e) pre"
  shows "products (run mount (pre @ FetchSettled out # post)) = []
       \<and> consoleErrors (run mount (pre @ FetchSettled out # post)) = [loggedError out]
       \<and> requestsSent (run mount (pre @ FetchSettled out # post)) = 1
       \<and> cards (render lower (run mount (pre @ FetchSettled out # post))) = []
       \<and> render lower (step (run mount pre) (FetchSettled out))
           = render lower (run mount pre)"
proof -
  define s where "s = run mount pre"
  define s1 where "s1 = step s (FetchSettled out)"
  have m: "products mount = []" "consoleErrors mount = []" "requestsSettled mount = 0"
    "requestsSent mount = 1"
    by (simp_all add: mount_def initial_def ops_defs)
  from no_settle_run [OF pre, of mount] m requestsSent_run [of mount pre]
  have s: "products s = []" "consoleErrors s = []" "requestsSettled s = 0"
    "requestsSent s = 1"
    unfolding s_def by simp_all
  then have lt: "requestsSettled s < requestsSent s" by simp
  note st = failed_settle_step [OF f lt]
  from st s have s1: "products s1 = []" "consoleErrors s1 = [loggedError out]"
    "requestsSettled s1 = requestsSent s1"
    unfolding s1_def by simp_all
  from all_settled_run [OF s1(3), of post] s1 have
    p: "products (run s1 post) = []" "consoleErrors (run s1 post) = [loggedError out]"
    by simp_all
  have r: "run mount (pre @ FetchSettled out # post) = run s1 post"
    by (simp add: run_append s_def s1_def)
  have rs: "requestsSent (run mount (pre @ FetchSettled out # post)) = 1"
    using requestsSent_run [of mount] m by simp
  have c: "cards (render lower (run s1 post)) = []"
    using p by (simp add: render_def filteredProducts_def)
  have "render lower (step s (FetchSettled out)) = render lower s"
    unfolding st by (rule render_frame)
  with r p rs c show ?thesis unfolding s_def by simp
qed

theorem fetch_failure_witness:
  "failedOutcome (Response 404 None)
   \<and> list_all (\<lambda>e. \<not> isSettle e) [Change ''a'', Elapse 300]
   \<and> products (run mount [Change ''a'', Elapse 300, FetchSettled (Response 404 None),
        ImageLoad ''1'']) = []
   \<and> consoleErrors (run mount [Change ''a'', Elapse 300, FetchSettled (Response 404 None),
        ImageLoad ''1'']) = [HttpError 404]"
proof -
  have f: "failedOutcome (Response 404 None)"
    by (simp add: failedOutcome_def response_ok_def)
  have p: "list_all (\<lambda>e. \<not> isSettle e) [Change ''a'', Elapse 300]" by simp
  have l: "loggedError (Response 404 None) = HttpError 404"
    by (simp add: loggedError_def response_ok_def)
  note c = fetch_failure [OF f p, of "[ImageLoad ''1'']", unfolded l append.simps]
  from f p c show ?thesis by simp
qed

end
